theory Spec2Isabelle
  imports Main "HOL-Library.Word"
begin

unbundle bit_operations_syntax

section \<open>The output sink\<close>

text \<open>
  \<^verbatim>\<open>conversions.h\<close> writes to a \<^verbatim>\<open>std::ostream\<close> and never reads it back or seeks.
  The sink is the list of bytes appended so far; \<^verbatim>\<open>dst.put(c)\<close> appends one byte and
  \<^verbatim>\<open>dst.write(p, n)\<close> appends the \<open>n\<close> bytes at \<open>p\<close>. Failures of the stream itself are
  outside the header and are not modelled.
\<close>

type_synonym byte = "8 word"
type_synonym ostream = "byte list"

definition ostream_put :: "ostream \<Rightarrow> byte \<Rightarrow> ostream" where
  "ostream_put dst c = dst @ [c]"

definition ostream_write :: "ostream \<Rightarrow> byte list \<Rightarrow> ostream" where
  "ostream_write dst bs = dst @ bs"

section \<open>Scalars in memory\<close>

text \<open>
  An integer of type \<open>T\<close> is a word of \<open>8 * sizeof(T)\<close> bits. The header copies scalars
  out of memory with \<^verbatim>\<open>reinterpret_cast<const char *>(&t)\<close>; on the little-endian hosts
  its opening comment speaks of, the byte at offset \<open>i\<close> holds bits \<open>8i .. 8i+7\<close>.
  The development fixes such a host.
\<close>

definition sizeof :: "'a::len word \<Rightarrow> nat" where
  "sizeof t = LENGTH('a) div 8"

definition object_bytes :: "'a::len word \<Rightarrow> byte list" where
  "object_bytes t = map (\<lambda>i. ucast (drop_bit (8 * i) t)) [0..<sizeof t]"

text \<open>
  Only the default build is modelled. In the build with \<^verbatim>\<open>EXOTIC_ARCH_SUPPORT\<close> every
  scalar is written through the integer overload of lines 34-39, whose line 38 applies
  \<^verbatim>\<open>->\<close> to a \<^verbatim>\<open>std::ostream &\<close>: that build does not compile, and nothing is said of it.

  The two overloads of \<^verbatim>\<open>write_little_endian\<close> of the default build (lines 80-88):
  a one-byte scalar goes through \<^verbatim>\<open>dst.put(t)\<close>, a wider one through
  \<^verbatim>\<open>dst.write(reinterpret_cast<const char *>(&t), sizeof(T))\<close>.
\<close>

definition write_little_endian :: "ostream \<Rightarrow> 'a::len word \<Rightarrow> ostream" where
  "write_little_endian dst t =
     (if sizeof t = 1 then ostream_put dst (ucast t)
      else ostream_write dst (object_bytes t))"

section \<open>Variable-length integers\<close>

text \<open>
  \<^verbatim>\<open>write_varlen_int\<close> (lines 109-120). The argument is a \<^verbatim>\<open>uint64_t\<close>; the casts
  \<^verbatim>\<open>static_cast<uint8_t>\<close> and \<^verbatim>\<open>static_cast<uint32_t>\<close> keep the low bits.
\<close>

definition write_varlen_int :: "ostream \<Rightarrow> 64 word \<Rightarrow> ostream" where
  "write_varlen_int dst v =
     (if v < 256 then ostream_put (ostream_put dst 1) (ucast v)
      else if v \<le> 4294967295 then write_little_endian (ostream_put dst 4) (ucast v :: 32 word)
      else write_little_endian (ostream_put dst 8) (ucast v :: 64 word))"

text \<open>
  Reading a little-endian byte sequence back as a number. The header has no reader;
  this is the meaning of "the value in little-endian bytes" that the theorems use.
\<close>

fun le_value :: "byte list \<Rightarrow> nat" where
  "le_value [] = 0"
| "le_value (b # bs) = unat b + 256 * le_value bs"

section \<open>Batches of scalars\<close>

text \<open>
  \<^verbatim>\<open>write_sample_values\<close> of the default build (lines 90-95) copies the whole array
  with one \<^verbatim>\<open>dst.write(reinterpret_cast<const char *>(sample), len * sizeof(T))\<close>: the
  bytes of the elements, one after the other. It returns \<^verbatim>\<open>sample + len\<close>; the model
  returns the sink together with the offset of the returned pointer from \<^verbatim>\<open>sample\<close>.
  The build asserts IEEE-754 floats of 4 and 8 bytes, so a \<^verbatim>\<open>float\<close> or \<^verbatim>\<open>double\<close>
  element is the word of its bit pattern.
\<close>

definition write_sample_values :: "ostream \<Rightarrow> 'a::len word list \<Rightarrow> ostream \<times> nat" where
  "write_sample_values dst sample =
     (ostream_write dst (concat (map object_bytes sample)), length sample)"

text \<open>The overloads for a vector (lines 98-101) and a vector of vectors (lines 103-106).\<close>

definition write_sample_values_vector :: "ostream \<Rightarrow> 'a::len word list \<Rightarrow> ostream" where
  "write_sample_values_vector dst sample = fst (write_sample_values dst sample)"

definition write_sample_values_vectors :: "ostream \<Rightarrow> 'a::len word list list \<Rightarrow> ostream" where
  "write_sample_values_vectors buf vecs = fold (\<lambda>vec b. write_sample_values_vector b vec) vecs buf"

section \<open>Batches of strings, plain mode\<close>

text \<open>
  A \<^verbatim>\<open>std::string\<close> is its sequence of bytes; \<^verbatim>\<open>size()\<close> is a \<^verbatim>\<open>size_t\<close>, passed on
  as \<^verbatim>\<open>uint64_t\<close>.
\<close>

definition string_data :: "string \<Rightarrow> byte list" where
  "string_data s = map of_char s"

definition string_size :: "string \<Rightarrow> 64 word" where
  "string_size s = of_nat (length s)"

text \<open>
  The specialisation of \<^verbatim>\<open>write_sample_values\<close> for strings (lines 129-140): for each
  string the length as a varlen int, then the content. The pointer it returns has
  walked to the end of the array.
\<close>

definition write_sample_values_string :: "ostream \<Rightarrow> string list \<Rightarrow> ostream \<times> nat" where
  "write_sample_values_string dst sample =
     (fold (\<lambda>s d. ostream_write (write_varlen_int d (string_size s)) (string_data s)) sample dst,
      length sample)"

section \<open>Chunk7 batches\<close>

text \<open>
  The generic \<^verbatim>\<open>write_chunk7_samples\<close> (lines 142-145) and its vector overload
  (lines 147-150) hand the batch to \<^verbatim>\<open>write_sample_values\<close>.
\<close>

definition write_chunk7_samples :: "ostream \<Rightarrow> 'a::len word list \<Rightarrow> ostream \<times> nat" where
  "write_chunk7_samples dst sample = write_sample_values dst sample"

definition write_chunk7_samples_vector :: "ostream \<Rightarrow> 'a::len word list \<Rightarrow> ostream" where
  "write_chunk7_samples_vector dst sample = fst (write_sample_values dst sample)"

text \<open>
  The specialisation for strings (lines 152-189), in the order of its statements.

  Lines 156-161: the lengths, and the values that the iterators of
  \<^verbatim>\<open>std::minmax_element\<close> point to. The call is made on a non-empty vector only.
\<close>

definition minmax_element :: "64 word list \<Rightarrow> 64 word \<times> 64 word" where
  "minmax_element strlens = (Min (set strlens), Max (set strlens))"

text \<open>
  Lines 163-167: the flag byte (\<^verbatim>\<open>write_little_endian<int8_t>\<close> of \<^verbatim>\<open>true\<close> or
  \<^verbatim>\<open>false\<close>), and \<^verbatim>\<open>strlens\<close> cut down to the one shared length when all lengths agree.
\<close>

definition uniform_flag ::
  "ostream \<Rightarrow> 64 word list \<Rightarrow> 64 word \<Rightarrow> 64 word \<Rightarrow> ostream \<times> 64 word list" where
  "uniform_flag dst strlens minlen maxlen =
     (if minlen = maxlen then (write_little_endian dst (1 :: 8 word), [maxlen])
      else (write_little_endian dst (0 :: 8 word), strlens))"

text \<open>
  Lines 169-172. \<^verbatim>\<open>1L<<32\<close> is taken at a 64-bit \<^verbatim>\<open>long\<close>; the comparisons are
  unsigned, \<^verbatim>\<open>maxlen\<close> being a \<^verbatim>\<open>uint64_t\<close>.
\<close>

definition select_lenbytes :: "64 word \<Rightarrow> 8 word" where
  "select_lenbytes maxlen =
     (if maxlen \<ge> push_bit 32 1 then 8
      else if maxlen \<ge> push_bit 16 1 then 4
      else if maxlen \<ge> push_bit 8 1 then 2
      else 1)"

text \<open>
  Lines 175-184: the \<^verbatim>\<open>switch\<close>. Each arm is a loop over \<^verbatim>\<open>strlens\<close> that casts every
  entry to the arm's type and writes it.
\<close>

datatype case_label = Case_1 | Case_2 | Case_4 | Case_8

fun arm :: "case_label \<Rightarrow> 64 word list \<Rightarrow> ostream \<Rightarrow> ostream" where
  "arm Case_1 strlens dst = fold (\<lambda>strlen d. write_little_endian d (ucast strlen :: 8 word)) strlens dst"
| "arm Case_2 strlens dst = fold (\<lambda>strlen d. write_little_endian d (ucast strlen :: 16 word)) strlens dst"
| "arm Case_4 strlens dst = fold (\<lambda>strlen d. write_little_endian d (ucast strlen :: 32 word)) strlens dst"
| "arm Case_8 strlens dst = fold (\<lambda>strlen d. write_little_endian d (ucast strlen :: 64 word)) strlens dst"

fun arm_width :: "case_label \<Rightarrow> nat" where
  "arm_width Case_1 = 1"
| "arm_width Case_2 = 2"
| "arm_width Case_4 = 4"
| "arm_width Case_8 = 8"

text \<open>
  No arm ends in \<^verbatim>\<open>break\<close>: control that enters at a label runs that arm and every
  arm below it. There is no \<^verbatim>\<open>default\<close>.
\<close>

definition arms_from :: "8 word \<Rightarrow> case_label list" where
  "arms_from lenbytes =
     (if lenbytes = 1 then [Case_1, Case_2, Case_4, Case_8]
      else if lenbytes = 2 then [Case_2, Case_4, Case_8]
      else if lenbytes = 4 then [Case_4, Case_8]
      else if lenbytes = 8 then [Case_8]
      else [])"

definition switch_lenbytes :: "8 word \<Rightarrow> 64 word list \<Rightarrow> ostream \<Rightarrow> ostream" where
  "switch_lenbytes lenbytes strlens dst = fold (\<lambda>c d. arm c strlens d) (arms_from lenbytes) dst"

text \<open>
  The whole function. It returns \<^verbatim>\<open>sample\<close> itself on both paths (offset 0).
\<close>

definition write_chunk7_samples_string :: "ostream \<Rightarrow> string list \<Rightarrow> ostream \<times> nat" where
  "write_chunk7_samples_string dst sample =
     (if length sample = 0 then (dst, 0)
      else
        let strlens = map string_size sample;
            (minlen, maxlen) = minmax_element strlens;
            (dst, strlens) = uniform_flag dst strlens minlen maxlen;
            lenbytes = select_lenbytes maxlen;
            dst = write_little_endian dst lenbytes;
            dst = switch_lenbytes lenbytes strlens dst;
            dst = fold (\<lambda>it d. ostream_write d (string_data it)) sample dst
        in (dst, 0))"

section \<open>Little-endian bytes of a word\<close>

lemma le_value_append: "le_value (xs @ ys) = le_value xs + 256 ^ length xs * le_value ys"
  by (induction xs) (simp_all add: algebra_simps)

lemma unat_byte_at:
  "unat (ucast (drop_bit (8 * i) (t :: 'a::len word)) :: byte) = unat t div 2 ^ (8 * i) mod 256"
proof -
  have "unat (ucast (drop_bit (8 * i) t) :: byte) = take_bit 8 (drop_bit (8 * i) (unat t))"
    by (simp add: unsigned_ucast_eq unat_drop_bit_eq)
  also have "\<dots> = unat t div 2 ^ (8 * i) mod 256"
    by (simp add: take_bit_eq_mod drop_bit_eq_div)
  finally show ?thesis .
qed

lemma le_value_bytes:
  "le_value (map (\<lambda>i. ucast (drop_bit (8 * i) (t :: 'a::len word))) [0..<n]) = unat t mod 2 ^ (8 * n)"
proof (induction n)
  case 0
  show ?case by simp
next
  case (Suc n)
  have "unat t mod 2 ^ (8 * Suc n) = unat t mod (2 ^ (8 * n) * 256)"
    by (simp add: power_add mult.commute)
  also have "\<dots> = 2 ^ (8 * n) * (unat t div 2 ^ (8 * n) mod 256) + unat t mod 2 ^ (8 * n)"
    by (rule mod_mult2_eq)
  finally show ?case
    using Suc by (simp add: le_value_append unat_byte_at power_mult)
qed

lemma length_object_bytes: "length (object_bytes t) = sizeof t"
  by (simp add: object_bytes_def)

lemma le_value_object_bytes:
  assumes "8 dvd LENGTH('a)"
  shows "le_value (object_bytes (t :: 'a::len word)) = unat t"
proof -
  from assms have "8 * sizeof t = LENGTH('a)" by (simp add: sizeof_def)
  then have "unat t mod 2 ^ (8 * sizeof t) = unat t"
    by (metis unsigned_less mod_less)
  then show ?thesis by (simp add: object_bytes_def le_value_bytes)
qed

text \<open>Both overloads of the default build append the bytes of the scalar.\<close>

lemma write_little_endian_bytes: "write_little_endian dst t = dst @ object_bytes t"
  by (simp add: write_little_endian_def ostream_put_def ostream_write_def object_bytes_def)

lemma unat_ucast_small:
  "unat (v :: 64 word) < 2 ^ LENGTH('b) \<Longrightarrow> unat (ucast v :: 'b::len word) = unat v"
  by (simp add: unsigned_ucast_eq take_bit_nat_eq_self)

section \<open>The varlen encoder\<close>

text \<open>
  C2. For every unsigned 64-bit value \<open>v\<close>, \<^verbatim>\<open>write_varlen_int\<close> appends a tag byte and
  then \<open>v\<close> in little-endian bytes: 1 byte if \<open>v < 256\<close>, else 4 if \<open>v \<le> 4294967295\<close>,
  else 8. The tag equals the number of bytes that follow it, they read back as \<open>v\<close>,
  and the tag is never 2.
\<close>

theorem write_varlen_int_format:
  fixes v :: "64 word"
  shows "\<exists>tag bs. write_varlen_int dst v = dst @ tag # bs
           \<and> length bs = (if unat v < 256 then 1 else if unat v \<le> 4294967295 then 4 else 8)
           \<and> unat tag = length bs \<and> le_value bs = unat v \<and> tag \<noteq> 2"
proof -
  consider (one) "v < 256" | (four) "\<not> v < 256" "v \<le> 4294967295"
    | (eight) "\<not> v < 256" "\<not> v \<le> 4294967295"
    by blast
  then show ?thesis
  proof cases
    case one
    then have u: "unat v < 256" by (simp add: word_less_nat_alt)
    have "write_varlen_int dst v = dst @ 1 # [ucast v]"
      using one by (simp add: write_varlen_int_def ostream_put_def)
    moreover have "le_value [ucast v :: byte] = unat v"
      using u by (simp add: unat_ucast_small)
    ultimately show ?thesis using u by auto
  next
    case four
    then have u: "\<not> unat v < 256" "unat v \<le> 4294967295"
      by (simp_all add: word_less_nat_alt word_le_nat_alt)
    have "write_varlen_int dst v = dst @ 4 # object_bytes (ucast v :: 32 word)"
      using four by (simp add: write_varlen_int_def ostream_put_def write_little_endian_bytes)
    moreover have "le_value (object_bytes (ucast v :: 32 word)) = unat v"
      using u by (simp add: le_value_object_bytes unat_ucast_small)
    moreover have "length (object_bytes (ucast v :: 32 word)) = 4"
      by (simp add: length_object_bytes sizeof_def)
    ultimately show ?thesis using u by auto
  next
    case eight
    then have u: "\<not> unat v < 256" "\<not> unat v \<le> 4294967295"
      by (simp_all add: word_less_nat_alt word_le_nat_alt)
    have "write_varlen_int dst v = dst @ 8 # object_bytes (ucast v :: 64 word)"
      using eight by (simp add: write_varlen_int_def ostream_put_def write_little_endian_bytes)
    moreover have "le_value (object_bytes (ucast v :: 64 word)) = unat v"
      by (simp add: le_value_object_bytes)
    moreover have "length (object_bytes (ucast v :: 64 word)) = 8"
      by (simp add: length_object_bytes sizeof_def)
    ultimately show ?thesis using u by auto
  qed
qed

section \<open>Chunk7 string batches: the shape of the output\<close>

lemma unat_string_size: "length s < 2 ^ 64 \<Longrightarrow> unat (string_size s) = length s"
  by (simp add: string_size_def unat_of_nat)

lemma mono_unat: "mono (unat :: 'a::len word \<Rightarrow> nat)"
  by (simp add: mono_def word_le_nat_alt)

lemma unat_image_strlens:
  assumes "\<forall>s\<in>set sample. length s < 2 ^ 64"
  shows "unat ` set (map string_size sample) = length ` set sample"
proof -
  have "unat ` set (map string_size sample) = (\<lambda>s. unat (string_size s)) ` set sample"
    by (simp add: image_image)
  also have "\<dots> = length ` set sample"
    using assms by (intro image_cong) (simp_all add: unat_string_size)
  finally show ?thesis .
qed

lemma unat_Max_strlens:
  assumes "sample \<noteq> []" and "\<forall>s\<in>set sample. length s < 2 ^ 64"
  shows "unat (Max (set (map string_size sample))) = Max (length ` set sample)"
proof -
  have "unat (Max (set (map string_size sample))) = Max (unat ` set (map string_size sample))"
    using assms(1) by (intro mono_Max_commute mono_unat) simp_all
  then show ?thesis using assms(2) by (simp only: unat_image_strlens)
qed

lemma unat_Min_strlens:
  assumes "sample \<noteq> []" and "\<forall>s\<in>set sample. length s < 2 ^ 64"
  shows "unat (Min (set (map string_size sample))) = Min (length ` set sample)"
proof -
  have "unat (Min (set (map string_size sample))) = Min (unat ` set (map string_size sample))"
    using assms(1) by (intro mono_Min_commute mono_unat) simp_all
  then show ?thesis using assms(2) by (simp only: unat_image_strlens)
qed

lemma select_lenbytes_unat:
  "select_lenbytes maxlen =
     (if unat maxlen < 2 ^ 8 then 1 else if unat maxlen < 2 ^ 16 then 2
      else if unat maxlen < 2 ^ 32 then 4 else 8)"
  by (simp add: select_lenbytes_def word_le_nat_alt not_le [symmetric])

lemma fold_append_bytes: "fold (\<lambda>x d. d @ g x) xs dst = dst @ concat (map g xs)"
  by (induction xs arbitrary: dst) simp_all

lemma fold_ostream_write:
  "fold (\<lambda>x d. ostream_write d (f x)) xs dst = dst @ concat (map f xs)"
  by (simp add: ostream_write_def fold_append_bytes)

lemma arm_bytes: "arm c strlens dst = dst @ concat (map (\<lambda>l. arm c [l] []) strlens)"
  by (cases c) (simp_all add: write_little_endian_bytes fold_append_bytes)

lemma fold_arm:
  "fold (\<lambda>c d. arm c strlens d) cs dst = dst @ concat (map (\<lambda>c. arm c strlens []) cs)"
proof (induction cs arbitrary: dst)
  case Nil
  show ?case by simp
next
  case (Cons c cs)
  have "arm c strlens dst = dst @ arm c strlens []"
    using arm_bytes [of c strlens dst] arm_bytes [of c strlens "[]"] by simp
  then show ?case using Cons by simp
qed

lemma switch_lenbytes_bytes:
  "switch_lenbytes lenbytes strlens dst =
     dst @ concat (map (\<lambda>c. arm c strlens []) (arms_from lenbytes))"
  by (simp add: switch_lenbytes_def fold_arm)

lemma chunk7_shape:
  assumes "sample \<noteq> []"
  defines "strlens \<equiv> map string_size sample"
  defines "minlen \<equiv> Min (set strlens)" and "maxlen \<equiv> Max (set strlens)"
  shows "fst (write_chunk7_samples_string dst sample) =
     dst @ [if minlen = maxlen then 1 else 0, select_lenbytes maxlen]
       @ concat (map (\<lambda>c. arm c (if minlen = maxlen then [maxlen] else strlens) [])
                  (arms_from (select_lenbytes maxlen)))
       @ concat (map string_data sample)"
  using assms(1)
  by (simp add: write_chunk7_samples_string_def minmax_element_def uniform_flag_def Let_def
      strlens_def minlen_def maxlen_def switch_lenbytes_bytes fold_ostream_write
      write_little_endian_bytes object_bytes_def sizeof_def)

lemma unat_select_lenbytes:
  "unat (select_lenbytes maxlen) =
     (if unat maxlen < 2 ^ 8 then 1 else if unat maxlen < 2 ^ 16 then 2
      else if unat maxlen < 2 ^ 32 then 4 else 8)"
  by (simp add: select_lenbytes_unat)

lemma chunk7_nth_flag:
  assumes "sample \<noteq> []"
  shows "fst (write_chunk7_samples_string dst sample) ! length dst =
     (if Min (set (map string_size sample)) = Max (set (map string_size sample)) then 1 else 0)"
  by (simp only: chunk7_shape [OF assms] nth_append_length append.simps)

lemma chunk7_nth_width:
  assumes "sample \<noteq> []"
  shows "fst (write_chunk7_samples_string dst sample) ! (length dst + 1) =
     select_lenbytes (Max (set (map string_size sample)))"
  by (simp add: chunk7_shape [OF assms] nth_append)

lemma strlens_uniform_iff:
  assumes "sample \<noteq> []" and "\<forall>s\<in>set sample. length s < 2 ^ 64"
  shows "Min (set (map string_size sample)) = Max (set (map string_size sample))
     \<longleftrightarrow> Min (length ` set sample) = Max (length ` set sample)"
  using unat_Min_strlens [OF assms] unat_Max_strlens [OF assms]
  by (metis word_unat_eq_iff)

lemma Max_strlens_of_nat:
  assumes "sample \<noteq> []" and "\<forall>s\<in>set sample. length s < 2 ^ 64"
  shows "Max (set (map string_size sample)) = of_nat (Max (length ` set sample))"
proof -
  have "of_nat (unat (Max (set (map string_size sample)))) = Max (set (map string_size sample))"
    by simp
  then show ?thesis by (simp only: unat_Max_strlens [OF assms])
qed

lemma arm_single:
  assumes "unat l < 2 ^ (8 * arm_width c)"
  shows "length (arm c [l] []) = arm_width c \<and> le_value (arm c [l] []) = unat l"
  using assms
  by (cases c)
    (simp_all add: write_little_endian_bytes length_object_bytes sizeof_def
      le_value_object_bytes unat_ucast_small)

lemma arms_from_width: "c \<in> set (arms_from lenbytes) \<Longrightarrow> unat lenbytes \<le> arm_width c"
  by (auto simp: arms_from_def split: if_splits)

lemma arms_from_select_lenbytes:
  "map arm_width (arms_from (select_lenbytes maxlen))
     = filter (\<lambda>w. unat (select_lenbytes maxlen) \<le> w) [1, 2, 4, 8]"
  by (simp add: select_lenbytes_unat arms_from_def)

lemma maxlen_fits: "unat (maxlen :: 64 word) < 2 ^ (8 * unat (select_lenbytes maxlen))"
proof -
  have "unat maxlen < 2 ^ 64" using unsigned_less [of maxlen] by simp
  then show ?thesis by (simp add: unat_select_lenbytes)
qed

lemma fits_arm:
  assumes "c \<in> set (arms_from (select_lenbytes maxlen))" and "l \<le> maxlen"
  shows "unat l < 2 ^ (8 * arm_width c)"
proof -
  have "unat l \<le> unat maxlen" using assms(2) by (simp add: word_le_nat_alt)
  also have "\<dots> < 2 ^ (8 * unat (select_lenbytes maxlen))" by (rule maxlen_fits)
  also have "\<dots> \<le> (2 :: nat) ^ (8 * arm_width c)"
    using arms_from_width [OF assms(1)] by (intro power_increasing) simp_all
  finally show ?thesis .
qed

section \<open>Chunk7 string batches: flag, width and length list\<close>

text \<open>
  The strings of a batch are \<^verbatim>\<open>std::string\<close>s, whose sizes fit \<^verbatim>\<open>size_t\<close>; the theorems
  that speak of the lengths as numbers say so: every length is below \<open>2 ^ 64\<close>.
\<close>

text \<open>
  C5. Encoding an empty batch appends nothing to the sink, not even the flag byte: the
  function returns at once with the sink as it was.
\<close>

theorem chunk7_empty_batch: "write_chunk7_samples_string dst [] = (dst, 0)"
  by (simp add: write_chunk7_samples_string_def)

text \<open>
  C3. For a non-empty batch the second byte appended is the width: with \<open>M\<close> the
  greatest string length, it is 1 if \<open>M < 2^8\<close>, 2 if \<open>M < 2^16\<close>, 4 if \<open>M < 2^32\<close>, else
  8. It is the least of 1, 2, 4, 8 whose field holds \<open>M\<close>, and \<open>M = 256\<close> gives 2.
\<close>

theorem chunk7_width_byte:
  assumes "sample \<noteq> []" and "\<forall>s\<in>set sample. length s < 2 ^ 64"
  shows "(let M = Max (length ` set sample);
              w = unat (fst (write_chunk7_samples_string dst sample) ! (length dst + 1))
          in w = (if M < 2 ^ 8 then 1 else if M < 2 ^ 16 then 2 else if M < 2 ^ 32 then 4 else 8)
             \<and> w \<in> {1, 2, 4, 8} \<and> M < 2 ^ (8 * w)
             \<and> (\<forall>w' \<in> {1, 2, 4, 8}. M < 2 ^ (8 * w') \<longrightarrow> w \<le> w')
             \<and> (M = 256 \<longrightarrow> w = 2))"
proof -
  define M where "M = Max (length ` set sample)"
  define w where "w = unat (fst (write_chunk7_samples_string dst sample) ! (length dst + 1))"
  have "M \<in> length ` set sample"
    unfolding M_def using assms(1) by (intro Max_in) simp_all
  then have bound: "M < 2 ^ 64" using assms(2) by auto
  have w: "w = (if M < 2 ^ 8 then 1 else if M < 2 ^ 16 then 2 else if M < 2 ^ 32 then 4 else 8)"
    unfolding w_def M_def
    by (simp only: chunk7_nth_width [OF assms(1)] unat_select_lenbytes unat_Max_strlens [OF assms])
  have "w \<in> {1, 2, 4, 8}" using w by simp
  moreover have "M < 2 ^ (8 * w)" using w bound by (simp split: if_splits)
  moreover have "\<forall>w' \<in> {1, 2, 4, 8}. M < 2 ^ (8 * w') \<longrightarrow> w \<le> w'"
    using w by (auto split: if_splits)
  moreover have "M = 256 \<longrightarrow> w = 2" using w by simp
  ultimately show ?thesis
    using w unfolding Let_def M_def [symmetric] w_def [symmetric] by blast
qed

theorem chunk7_width_byte_witness:
  "unat (fst (write_chunk7_samples_string [] [''bc'', replicate 256 CHR ''a'']) ! 1) = 2"
proof -
  have h1: "[''bc'', replicate 256 CHR ''a''] \<noteq> []" by simp
  have h2: "\<forall>s\<in>set [''bc'', replicate 256 CHR ''a'']. length s < 2 ^ 64" by simp
  have M: "Max (length ` set [''bc'', replicate 256 CHR ''a'']) = 256" by simp
  show ?thesis
    using chunk7_width_byte [OF h1 h2, of "[]"] unfolding Let_def M by simp
qed

text \<open>
  C6. For a non-empty batch the first byte appended is the flag: 1 if the least and the
  greatest string length agree, else 0. When they agree the list handed to the switch
  is the one shared length alone, and a batch of one string is always of this kind.
\<close>

theorem chunk7_flag_byte:
  assumes "sample \<noteq> []" and "\<forall>s\<in>set sample. length s < 2 ^ 64"
  shows "(let out = fst (write_chunk7_samples_string dst sample);
              m = Min (length ` set sample); M = Max (length ` set sample)
          in out ! length dst = (if m = M then 1 else 0)
             \<and> (m = M \<longrightarrow>
                  out = dst @ [1, select_lenbytes (of_nat M)]
                          @ switch_lenbytes (select_lenbytes (of_nat M)) [of_nat M] []
                          @ concat (map string_data sample))
             \<and> (length sample = 1 \<longrightarrow> m = M \<and> out ! length dst = 1))"
proof -
  define out where "out = fst (write_chunk7_samples_string dst sample)"
  define m where "m = Min (length ` set sample)"
  define M where "M = Max (length ` set sample)"
  have uni: "Min (set (map string_size sample)) = Max (set (map string_size sample)) \<longleftrightarrow> m = M"
    unfolding m_def M_def by (rule strlens_uniform_iff [OF assms])
  have maxw: "Max (set (map string_size sample)) = of_nat M"
    unfolding M_def by (rule Max_strlens_of_nat [OF assms])
  have flag: "out ! length dst = (if m = M then 1 else 0)"
    unfolding out_def by (simp only: chunk7_nth_flag [OF assms(1)] uni)
  have shape: "out = dst @ [1, select_lenbytes (of_nat M)]
                 @ switch_lenbytes (select_lenbytes (of_nat M)) [of_nat M] []
                 @ concat (map string_data sample)" if "m = M"
  proof -
    have "out = dst @ [if m = M then 1 else 0, select_lenbytes (of_nat M)]
        @ concat (map (\<lambda>c. arm c (if m = M then [of_nat M] else map string_size sample) [])
                   (arms_from (select_lenbytes (of_nat M))))
        @ concat (map string_data sample)"
      unfolding out_def
      by (subst chunk7_shape [OF assms(1)], simp only: uni, simp only: maxw)
    then show ?thesis using that by (simp add: switch_lenbytes_bytes)
  qed
  have one: "m = M" if "length sample = 1"
  proof -
    from that obtain s where "sample = [s]" by (cases sample) auto
    then show ?thesis by (simp add: m_def M_def)
  qed
  show ?thesis
    unfolding Let_def out_def [symmetric] m_def [symmetric] M_def [symmetric]
    using flag shape one by simp
qed

theorem chunk7_flag_byte_witness:
  "fst (write_chunk7_samples_string [7] [''ab'', ''cd'', ''ef'']) ! 1 = 1
   \<and> fst (write_chunk7_samples_string [7] [''ab'', ''cd'', ''ef''])
       = [7, 1, select_lenbytes 2] @ switch_lenbytes (select_lenbytes 2) [2] []
           @ concat (map string_data [''ab'', ''cd'', ''ef''])
   \<and> fst (write_chunk7_samples_string [7] [''a'', ''bbb'']) ! 1 = 0
   \<and> fst (write_chunk7_samples_string [7] [''xyz'']) ! 1 = 1"
proof -
  have a: "[''ab'', ''cd'', ''ef''] \<noteq> []" "[''a'', ''bbb''] \<noteq> []" "[''xyz''] \<noteq> []"
    by simp_all
  have b: "\<forall>s\<in>set [''ab'', ''cd'', ''ef'']. length s < 2 ^ 64"
    "\<forall>s\<in>set [''a'', ''bbb'']. length s < 2 ^ 64" "\<forall>s\<in>set [''xyz'']. length s < 2 ^ 64"
    by simp_all
  show ?thesis
    using chunk7_flag_byte [OF a(1) b(1), of "[7]"] chunk7_flag_byte [OF a(2) b(2), of "[7]"]
      chunk7_flag_byte [OF a(3) b(3), of "[7]"]
    by (simp add: Let_def)
qed

text \<open>
  C10. For a non-empty batch, the entries of the length list are the true lengths of
  the strings (the one shared length for a uniform batch). After flag and width the
  sink holds, for every arm of the switch that runs and every entry, the bytes that arm
  writes for the entry, then the contents. The arms that run are those of width at
  least \<^verbatim>\<open>lenbytes\<close>; in each of them every entry is below \<open>2 ^ (8 * w)\<close> for the arm's
  width \<open>w\<close>, so the cast loses nothing: the \<open>w\<close> bytes written read back as the length.
\<close>

theorem chunk7_lengths_not_truncated:
  assumes "sample \<noteq> []" and "\<forall>s\<in>set sample. length s < 2 ^ 64"
  shows "(let strlens = map string_size sample;
              (minlen, maxlen) = minmax_element strlens;
              kept = snd (uniform_flag dst strlens minlen maxlen);
              arms = arms_from (select_lenbytes maxlen)
          in map unat kept =
               (if Min (length ` set sample) = Max (length ` set sample)
                then [Max (length ` set sample)] else map length sample)
             \<and> drop (length dst + 2) (fst (write_chunk7_samples_string dst sample)) =
                 concat (map (\<lambda>c. concat (map (\<lambda>l. arm c [l] []) kept)) arms)
                   @ concat (map string_data sample)
             \<and> map arm_width arms = filter (\<lambda>w. unat (select_lenbytes maxlen) \<le> w) [1, 2, 4, 8]
             \<and> (\<forall>c \<in> set arms. \<forall>l \<in> set kept.
                   unat l < 2 ^ (8 * arm_width c)
                   \<and> length (arm c [l] []) = arm_width c
                   \<and> le_value (arm c [l] []) = unat l))"
proof -
  define strlens where "strlens = map string_size sample"
  define minlen where "minlen = Min (set strlens)"
  define maxlen where "maxlen = Max (set strlens)"
  define kept where "kept = snd (uniform_flag dst strlens minlen maxlen)"
  have kept_eq: "kept = (if minlen = maxlen then [maxlen] else strlens)"
    by (simp add: kept_def uniform_flag_def)
  have uni: "minlen = maxlen \<longleftrightarrow> Min (length ` set sample) = Max (length ` set sample)"
    unfolding minlen_def maxlen_def strlens_def by (rule strlens_uniform_iff [OF assms])
  have maxu: "unat maxlen = Max (length ` set sample)"
    unfolding maxlen_def strlens_def by (rule unat_Max_strlens [OF assms])
  have "map unat strlens = map length sample"
    using assms(2) by (simp add: strlens_def unat_string_size)
  then have lens: "map unat kept =
      (if Min (length ` set sample) = Max (length ` set sample)
       then [Max (length ` set sample)] else map length sample)"
    using uni maxu by (simp add: kept_eq)
  have le: "l \<le> maxlen" if "l \<in> set kept" for l
  proof -
    have "strlens \<noteq> []" using assms(1) by (simp add: strlens_def)
    moreover from that have "l = maxlen \<or> l \<in> set strlens"
      by (auto simp: kept_eq split: if_splits)
    ultimately show ?thesis by (auto simp: maxlen_def)
  qed
  have arms: "unat l < 2 ^ (8 * arm_width c) \<and> length (arm c [l] []) = arm_width c
      \<and> le_value (arm c [l] []) = unat l"
    if "c \<in> set (arms_from (select_lenbytes maxlen))" and "l \<in> set kept" for c l
    using fits_arm [OF that(1) le [OF that(2)]] arm_single by blast
  have "fst (write_chunk7_samples_string dst sample) =
      (dst @ [if minlen = maxlen then 1 else 0, select_lenbytes maxlen])
        @ concat (map (\<lambda>c. arm c kept []) (arms_from (select_lenbytes maxlen)))
        @ concat (map string_data sample)"
    unfolding kept_eq minlen_def maxlen_def strlens_def
    by (simp only: chunk7_shape [OF assms(1)] append_assoc)
  moreover have "arm c kept [] = concat (map (\<lambda>l. arm c [l] []) kept)" for c
    using arm_bytes [of c kept "[]"] by simp
  ultimately have out: "drop (length dst + 2) (fst (write_chunk7_samples_string dst sample)) =
      concat (map (\<lambda>c. concat (map (\<lambda>l. arm c [l] []) kept))
                (arms_from (select_lenbytes maxlen)))
        @ concat (map string_data sample)"
    by simp
  show ?thesis
    unfolding Let_def minmax_element_def split_conv strlens_def [symmetric]
      minlen_def [symmetric] maxlen_def [symmetric] kept_def [symmetric]
    using lens out arms arms_from_select_lenbytes by blast
qed

theorem chunk7_lengths_not_truncated_witness:
  "map unat (snd (uniform_flag [] [1, 3] 1 3)) = [1, 3]
   \<and> map arm_width (arms_from (select_lenbytes 3)) = [1, 2, 4, 8]
   \<and> le_value (arm Case_1 [3] []) = 3 \<and> le_value (arm Case_2 [3] []) = 3
   \<and> le_value (arm Case_4 [1] []) = 1 \<and> le_value (arm Case_8 [1] []) = 1"
proof -
  have h1: "[''a'', ''bbb''] \<noteq> []" by simp
  have h2: "\<forall>s\<in>set [''a'', ''bbb'']. length s < 2 ^ 64" by simp
  show ?thesis
    using chunk7_lengths_not_truncated [OF h1 h2, of "[]"]
    by (simp add: Let_def minmax_element_def string_size_def select_lenbytes_def arms_from_def
        uniform_flag_def)
qed

text \<open>
  C1. The specification has the length list written once, in the chosen width only.
  The switch has no \<^verbatim>\<open>break\<close>, so for the batch \<open>a\<close>, \<open>bbb\<close> (width 1) the list 1, 3
  is written four times: in 1, 2, 4 and 8 bytes per entry. The sink after the call, in
  its segments: flag and width, the four copies of the list, the contents.
\<close>

theorem chunk7_length_list_repeated:
  "fst (write_chunk7_samples_string [] [''a'', ''bbb''])
     = [0, 1] @ [1, 3] @ [1, 0, 3, 0] @ [1, 0, 0, 0, 3, 0, 0, 0]
       @ [1, 0, 0, 0, 0, 0, 0, 0, 3, 0, 0, 0, 0, 0, 0, 0] @ [97, 98, 98, 98]"
  by (simp add: write_chunk7_samples_string_def minmax_element_def uniform_flag_def
      select_lenbytes_def switch_lenbytes_def arms_from_def string_size_def string_data_def
      write_little_endian_def ostream_put_def ostream_write_def object_bytes_def sizeof_def upt_rec)

text \<open>
  C7. The specification has the batch \<open>ab\<close>, \<open>cd\<close>, \<open>ef\<close> encoded in 9 bytes: 1, 1, 2
  and the six characters. The function writes 23 bytes: after the one-byte entry 2 the
  same entry follows in 2, 4 and 8 bytes.
\<close>

theorem chunk7_uniform_example:
  "write_chunk7_samples_string [] [''ab'', ''cd'', ''ef'']
     = ([1, 1, 2, 2, 0, 2, 0, 0, 0, 2, 0, 0, 0, 0, 0, 0, 0, 97, 98, 99, 100, 101, 102], 0)
   \<and> length (fst (write_chunk7_samples_string [] [''ab'', ''cd'', ''ef''])) = 23"
  by (simp add: write_chunk7_samples_string_def minmax_element_def uniform_flag_def
      select_lenbytes_def switch_lenbytes_def arms_from_def string_size_def string_data_def
      write_little_endian_def ostream_put_def ostream_write_def object_bytes_def sizeof_def upt_rec)

section \<open>Plain-mode string batches\<close>

lemma write_varlen_int_small:
  "v < 256 \<Longrightarrow> write_varlen_int dst v = dst @ [1, ucast v]"
  by (simp add: write_varlen_int_def ostream_put_def)

lemma string_size_small: "length s < 256 \<Longrightarrow> string_size s < 256"
  by (simp add: string_size_def word_less_nat_alt unat_of_nat)

lemma fold_plain_small:
  assumes "\<forall>s\<in>set sample. length s < 256"
  shows "fold (\<lambda>s d. ostream_write (write_varlen_int d (string_size s)) (string_data s)) sample dst
     = dst @ concat (map (\<lambda>s. [1, of_nat (length s)] @ string_data s) sample)"
  using assms
proof (induction sample arbitrary: dst)
  case Nil
  show ?case by simp
next
  case (Cons s sample)
  have small: "string_size s < 256" using Cons.prems by (simp add: string_size_small)
  have "length s < 2 ^ 64" using Cons.prems by simp
  then have "(ucast (string_size s) :: byte) = of_nat (length s)"
    by (simp add: string_size_def unsigned_of_nat take_bit_nat_eq_self)
  then have "write_varlen_int dst (string_size s) = dst @ [1, of_nat (length s)]"
    using small by (simp add: write_varlen_int_small)
  then show ?case using Cons by (simp add: ostream_write_def)
qed

text \<open>
  C4, with \<open>2 + L\<close> in place of \<open>1 + L\<close>. For a batch of strings that are all shorter
  than 256 bytes, plain mode appends, for each string, the tag 1, one length byte and
  the content: \<open>2 + L\<close> bytes for a string of length \<open>L\<close>, and the sum of these over
  the batch.
\<close>

theorem plain_mode_byte_count:
  assumes "\<forall>s\<in>set sample. length s < 256"
  shows "fst (write_sample_values_string dst sample)
           = dst @ concat (map (\<lambda>s. [1, of_nat (length s)] @ string_data s) sample)
         \<and> length (fst (write_sample_values_string dst sample))
           = length dst + (\<Sum>s\<leftarrow>sample. 2 + length s)"
proof -
  have out: "fst (write_sample_values_string dst sample)
      = dst @ concat (map (\<lambda>s. [1, of_nat (length s)] @ string_data s) sample)"
    by (simp add: write_sample_values_string_def fold_plain_small [OF assms])
  have "length (concat (map (\<lambda>s. [1 :: byte, of_nat (length s)] @ string_data s) sample))
      = (\<Sum>s\<leftarrow>sample. 2 + length s)"
    by (induction sample) (simp_all add: string_data_def)
  with out show ?thesis by simp
qed

theorem plain_mode_byte_count_witness:
  "length (fst (write_sample_values_string [9] [''abc'', [], ''de''])) = 1 + (5 + 2 + 4)"
proof -
  have h: "\<forall>s\<in>set [''abc'', [], ''de'']. length s < 256" by simp
  show ?thesis using plain_mode_byte_count [OF h, of "[9]"] by (simp add: string_data_def)
qed

text \<open>
  C4 as stated counts \<open>1 + L\<close> bytes per string. The one-string batch \<open>abc\<close> is encoded
  in 5 bytes, not 4.
\<close>

theorem plain_mode_one_byte_per_string_counterexample:
  "length ''abc'' < 256
   \<and> fst (write_sample_values_string [] [''abc'']) = [1, 3, 97, 98, 99]
   \<and> length (fst (write_sample_values_string [] [''abc''])) \<noteq> 1 + length ''abc''"
  by (simp add: write_sample_values_string_def write_varlen_int_def string_size_def
      string_data_def ostream_put_def ostream_write_def)

section \<open>Numeric batches\<close>

text \<open>
  C9. For a batch of scalars \<^verbatim>\<open>write_chunk7_samples\<close> does what \<^verbatim>\<open>write_sample_values\<close>
  does, for the pointer overload (sink and returned pointer) and for the vector
  overload: the sink gains the bytes of the elements and nothing else.
\<close>

theorem chunk7_numeric_delegates:
  "write_chunk7_samples dst sample = write_sample_values dst sample
   \<and> write_chunk7_samples_vector dst sample = write_sample_values_vector dst sample
   \<and> fst (write_chunk7_samples dst sample) = dst @ concat (map object_bytes sample)"
  by (simp add: write_chunk7_samples_def write_chunk7_samples_vector_def
      write_sample_values_vector_def write_sample_values_def ostream_write_def)

end
